theory Spec2Isabelle
  imports Complex_Main
begin

section \<open>Session phases\<close>

text \<open>
  The source declares \<^verbatim>\<open>type SessionPhase = 'entry' | 'immersion' | 'return'\<close> and, inside
  \<^verbatim>\<open>SessionView\<close>, the three constants of the only configuration it has. The counter
  \<^verbatim>\<open>elapsed\<close> starts at 0 and is only ever incremented by one, so it is a natural number.
\<close>

datatype SessionPhase = Entry | Immersion | Return

definition TOTAL_TIME :: nat where
  "TOTAL_TIME = 20 * 60"

definition PHASE_1_END :: nat where
  "PHASE_1_END = 2 * 60"

definition PHASE_2_END :: nat where
  "PHASE_2_END = 18 * 60"

definition phase :: "nat \<Rightarrow> SessionPhase" where
  "phase elapsed =
     (if elapsed < PHASE_1_END then Entry
      else if elapsed < PHASE_2_END then Immersion
      else Return)"

text \<open>
  The phase function as the specification words it, over an injected configuration and with a
  fourth phase. It is used only to compare the source's \<open>phase\<close> with it.
\<close>

datatype spec_phase = Spec_Entry | Spec_Immersion | Spec_Return | Spec_Completed

record SessionConfig =
  totalDurationSeconds :: nat
  entryEndSeconds :: nat
  immersionEndSeconds :: nat

definition spec_phase_of :: "SessionConfig \<Rightarrow> nat \<Rightarrow> spec_phase" where
  "spec_phase_of cfg elapsed =
     (if elapsed < entryEndSeconds cfg then Spec_Entry
      else if elapsed < immersionEndSeconds cfg then Spec_Immersion
      else if elapsed < totalDurationSeconds cfg then Spec_Return
      else Spec_Completed)"

definition reference_config :: SessionConfig where
  "reference_config =
     \<lparr>totalDurationSeconds = 1200, entryEndSeconds = 120, immersionEndSeconds = 1080\<rparr>"

fun phase_as_spec :: "SessionPhase \<Rightarrow> spec_phase" where
  "phase_as_spec Entry = Spec_Entry"
| "phase_as_spec Immersion = Spec_Immersion"
| "phase_as_spec Return = Spec_Return"

section \<open>Brown noise\<close>

text \<open>
  The loop of \<^verbatim>\<open>AudioEngine.start\<close> that fills the buffer. Each round draws
  \<^verbatim>\<open>Math.random()\<close>; the draws are the list argument, in order. JavaScript numbers are
  modelled as real numbers: the arithmetic is exact, the rounding of doubles and of the
  \<^verbatim>\<open>Float32Array\<close> store is not represented.
\<close>

fun brown_loop :: "real \<Rightarrow> real list \<Rightarrow> real list" where
  "brown_loop lastOut [] = []"
| "brown_loop lastOut (r # rs) =
     (let white = r * 2 - 1;
          lastOut' = (lastOut + (0.02 * white)) / 1.02
      in (lastOut' * 3.5) * 0.1 # brown_loop lastOut' rs)"

definition brown_noise :: "real list \<Rightarrow> real list" where
  "brown_noise rs = brown_loop 0 rs"

section \<open>The Web Audio objects the engine drives\<close>

text \<open>
  \<^verbatim>\<open>AudioEngine\<close> is written against the browser's Web Audio interface. The part of that
  interface the engine calls is modelled here, after the Web Audio recommendation: an
  \<^verbatim>\<open>AudioParam\<close> has a current value, which the \<^verbatim>\<open>value\<close> getter returns and which the
  audio thread recomputes whenever it renders, and a timeline of automation events ordered by
  time. Times are seconds of the context's clock, as real numbers.
\<close>

datatype automation_event =
    SetValueAtTime real real
  | LinearRampToValueAtTime real real

fun event_value :: "automation_event \<Rightarrow> real" where
  "event_value (SetValueAtTime v t) = v"
| "event_value (LinearRampToValueAtTime v t) = v"

fun event_time :: "automation_event \<Rightarrow> real" where
  "event_time (SetValueAtTime v t) = t"
| "event_time (LinearRampToValueAtTime v t) = t"

fun is_ramp :: "automation_event \<Rightarrow> bool" where
  "is_ramp (SetValueAtTime v t) = False"
| "is_ramp (LinearRampToValueAtTime v t) = True"

record AudioParam =
  current_value :: real
  events :: "automation_event list"

text \<open>A new event goes behind the events that are not later than it.\<close>

fun insert_event :: "automation_event \<Rightarrow> automation_event list \<Rightarrow> automation_event list" where
  "insert_event e [] = [e]"
| "insert_event e (x # xs) =
     (if event_time e < event_time x then e # x # xs else x # insert_event e xs)"

definition cancelScheduledValues :: "real \<Rightarrow> AudioParam \<Rightarrow> AudioParam" where
  "cancelScheduledValues cancelTime p =
     p\<lparr>events := filter (\<lambda>e. event_time e < cancelTime) (events p)\<rparr>"

definition setValueAtTime :: "real \<Rightarrow> real \<Rightarrow> AudioParam \<Rightarrow> AudioParam" where
  "setValueAtTime v startTime p = p\<lparr>events := insert_event (SetValueAtTime v startTime) (events p)\<rparr>"

definition linearRampToValueAtTime :: "real \<Rightarrow> real \<Rightarrow> AudioParam \<Rightarrow> AudioParam" where
  "linearRampToValueAtTime v endTime p =
     p\<lparr>events := insert_event (LinearRampToValueAtTime v endTime) (events p)\<rparr>"

text \<open>
  The value the timeline gives at time \<open>t\<close>: \<open>v0\<close> and \<open>t0\<close> are the value and time of the event
  before the head of the list. Up to a set-value event the value holds; up to the end of a ramp
  it is \<open>v0 + (v1 - v0) * ((t - t0) / (t1 - t0))\<close>.
\<close>

fun automation :: "real \<Rightarrow> real \<Rightarrow> automation_event list \<Rightarrow> real \<Rightarrow> real" where
  "automation v0 t0 [] t = v0"
| "automation v0 t0 (SetValueAtTime v1 t1 # es) t =
     (if t < t1 then v0 else automation v1 t1 es t)"
| "automation v0 t0 (LinearRampToValueAtTime v1 t1 # es) t =
     (if t < t1 then v0 + (v1 - v0) * ((t - t0) / (t1 - t0)) else automation v1 t1 es t)"

definition value_at :: "AudioParam \<Rightarrow> real \<Rightarrow> real" where
  "value_at p t = automation (current_value p) t (events p) t"

definition render :: "real \<Rightarrow> AudioParam \<Rightarrow> AudioParam" where
  "render t p = p\<lparr>current_value := value_at p t\<rparr>"

record GainNode =
  gain :: AudioParam

datatype AudioContextState = Suspended | Running | Closed

record AudioContext =
  currentTime :: real
  sampleRate :: nat
  state :: AudioContextState

record AudioBufferSourceNode =
  buffer :: "real list"
  loop :: bool
  connected :: bool
  playing :: bool

section \<open>AudioEngine\<close>

record AudioEngine =
  ctx :: "AudioContext option"
  gainNode :: "GainNode option"
  source :: "AudioBufferSourceNode option"
  isPlaying :: bool

text \<open>
  The engine is the module's one instance. Around it stands what its methods read and write
  outside their own fields: the queue of pending \<^verbatim>\<open>setTimeout\<close> callbacks (each is the
  closure of \<^verbatim>\<open>stop\<close>, so a due time in milliseconds says it all), the wall clock in
  milliseconds, the sequence of values \<^verbatim>\<open>Math.random()\<close> returns with the number already
  drawn, and the context that \<^verbatim>\<open>new AudioContextClass()\<close> hands out.
\<close>

record Browser =
  audioEngine :: AudioEngine
  timeouts :: "nat list"
  now_ms :: nat
  rand :: "nat \<Rightarrow> real"
  drawn :: nat
  new_AudioContext :: AudioContext

definition init :: "Browser \<Rightarrow> Browser" where
  "init w =
     (let e = audioEngine w;
          e1 = (case ctx e of
                  None \<Rightarrow>
                    e\<lparr>ctx := Some (new_AudioContext w),
                      gainNode := Some \<lparr>gain = \<lparr>current_value = 0.5, events = []\<rparr>\<rparr>\<rparr>
                | Some c \<Rightarrow> e);
          e2 = (case ctx e1 of
                  None \<Rightarrow> e1
                | Some c \<Rightarrow>
                    if state c = Suspended then e1\<lparr>ctx := Some (c\<lparr>state := Running\<rparr>)\<rparr> else e1)
      in w\<lparr>audioEngine := e2\<rparr>)"

text \<open>
  \<^verbatim>\<open>start\<close>. The two \<open>None\<close> branches are the places where the JavaScript would throw a
  TypeError (a property of \<^verbatim>\<open>null\<close>, or \<^verbatim>\<open>connect(null)\<close> after the source has been
  assigned); the engine is left as the statements before the throw made it. No run from a new
  engine reaches them (lemma \<open>ctx_gainNode_together\<close> below).
\<close>

definition start :: "Browser \<Rightarrow> Browser" where
  "start w0 =
     (let w = (if ctx (audioEngine w0) = None \<or> gainNode (audioEngine w0) = None
               then init w0 else w0);
          e = audioEngine w
      in if isPlaying e then w
         else case ctx e of
           None \<Rightarrow> w
         | Some c \<Rightarrow>
             (let bufferSize = sampleRate c * 5;
                  data = brown_noise (map (rand w) [drawn w ..< drawn w + bufferSize]);
                  w1 = w\<lparr>drawn := drawn w + bufferSize\<rparr>
              in case gainNode e of
                   None \<Rightarrow>
                     w1\<lparr>audioEngine := e\<lparr>source :=
                        Some \<lparr>buffer = data, loop = True, connected = False, playing = False\<rparr>\<rparr>\<rparr>
                 | Some g \<Rightarrow>
                     w1\<lparr>audioEngine := e
                       \<lparr>source :=
                          Some \<lparr>buffer = data, loop = True, connected = True, playing = True\<rparr>,
                        isPlaying := True,
                        gainNode := Some (g\<lparr>gain :=
                          linearRampToValueAtTime 0.5 (currentTime c + 2)
                            (setValueAtTime 0 (currentTime c)
                              (cancelScheduledValues (currentTime c) (gain g)))\<rparr>)\<rparr>\<rparr>))"

definition stop :: "Browser \<Rightarrow> Browser" where
  "stop w =
     (let e = audioEngine w
      in case ctx e of
           None \<Rightarrow> w
         | Some c \<Rightarrow>
             if \<not> isPlaying e \<or> source e = None then w
             else
               (let t = currentTime c;
                    fade = (\<lambda>g. g\<lparr>gain :=
                      linearRampToValueAtTime 0 (t + 1)
                        (setValueAtTime (current_value (cancelScheduledValues t (gain g))) t
                          (cancelScheduledValues t (gain g)))\<rparr>)
                in w\<lparr>audioEngine := e\<lparr>gainNode := map_option fade (gainNode e)\<rparr>,
                     timeouts := timeouts w @ [now_ms w + 1000]\<rparr>))"

text \<open>The callback that \<^verbatim>\<open>stop\<close> hands to \<^verbatim>\<open>setTimeout\<close>.\<close>

definition timeout_callback :: "Browser \<Rightarrow> Browser" where
  "timeout_callback w =
     (let e = audioEngine w
      in w\<lparr>audioEngine := e
           \<lparr>source := map_option (\<lambda>s. s\<lparr>playing := False, connected := False\<rparr>) (source e),
            isPlaying := False\<rparr>\<rparr>)"

section \<open>What the browser does between the engine's calls\<close>

text \<open>
  The event loop runs the oldest pending timeout once it is due (a timer may be late, never
  early). Time passes for the wall clock and, while the context is running, for the context's
  clock; the audio thread then renders, which brings the gain's current value up to date.
\<close>

definition fire :: "Browser \<Rightarrow> Browser" where
  "fire w =
     (case timeouts w of
        [] \<Rightarrow> w
      | d # ds \<Rightarrow> if d \<le> now_ms w then timeout_callback (w\<lparr>timeouts := ds\<rparr>) else w)"

definition advance :: "nat \<Rightarrow> Browser \<Rightarrow> Browser" where
  "advance ms w =
     (let e = audioEngine w
      in w\<lparr>now_ms := now_ms w + ms,
           audioEngine :=
             (case ctx e of
                None \<Rightarrow> e
              | Some c \<Rightarrow>
                  if state c = Running
                  then (let t = currentTime c + real ms / 1000
                        in e\<lparr>ctx := Some (c\<lparr>currentTime := t\<rparr>),
                             gainNode := map_option (\<lambda>g. g\<lparr>gain := render t (gain g)\<rparr>)
                                           (gainNode e)\<rparr>)
                  else e)\<rparr>)"

datatype call = Init | Start | Stop | Fire | Advance nat

fun exec :: "call \<Rightarrow> Browser \<Rightarrow> Browser" where
  "exec Init w = init w"
| "exec Start w = start w"
| "exec Stop w = stop w"
| "exec Fire w = fire w"
| "exec (Advance ms) w = advance ms w"

definition run :: "call list \<Rightarrow> Browser \<Rightarrow> Browser" where
  "run cs w = fold exec cs w"

text \<open>\<^verbatim>\<open>const audioEngine = new AudioEngine()\<close> in a browser that has run nothing yet.\<close>

definition new_AudioEngine :: AudioEngine where
  "new_AudioEngine = \<lparr>ctx = None, gainNode = None, source = None, isPlaying = False\<rparr>"

definition new_Browser :: "nat \<Rightarrow> (nat \<Rightarrow> real) \<Rightarrow> AudioContext \<Rightarrow> Browser" where
  "new_Browser t r c =
     \<lparr>audioEngine = new_AudioEngine, timeouts = [], now_ms = t, rand = r, drawn = 0,
      new_AudioContext = c\<rparr>"

text \<open>
  The events of the gain's timeline that are not before the context's time (what
  \<^verbatim>\<open>cancelScheduledValues(currentTime)\<close> would remove), and the ramps that have not reached
  their end at the context's time: the envelopes that are active or still to come.
\<close>

definition upcoming :: "Browser \<Rightarrow> automation_event list" where
  "upcoming w =
     (case (ctx (audioEngine w), gainNode (audioEngine w)) of
        (Some c, Some g) \<Rightarrow> filter (\<lambda>e. currentTime c \<le> event_time e) (events (gain g))
      | _ \<Rightarrow> [])"

definition pending_ramps :: "Browser \<Rightarrow> automation_event list" where
  "pending_ramps w =
     (case (ctx (audioEngine w), gainNode (audioEngine w)) of
        (Some c, Some g) \<Rightarrow>
          filter (\<lambda>e. is_ramp e \<and> currentTime c < event_time e) (events (gain g))
      | _ \<Rightarrow> [])"

section \<open>Invariants of the engine, and an example browser\<close>

text \<open>
  Two facts that every run from a new engine keeps: the context and the gain node exist
  together, and while \<open>isPlaying\<close> is set there is a context and a source; and the context, once
  created, is running (\<^verbatim>\<open>init\<close> resumes a suspended one), provided the browser does not hand
  out a closed context.
\<close>

definition engine_inv :: "Browser \<Rightarrow> bool" where
  "engine_inv w \<longleftrightarrow>
     (ctx (audioEngine w) = None \<longleftrightarrow> gainNode (audioEngine w) = None)
     \<and> (isPlaying (audioEngine w) \<longrightarrow>
          ctx (audioEngine w) \<noteq> None \<and> source (audioEngine w) \<noteq> None)"

definition ctx_running :: "Browser \<Rightarrow> bool" where
  "ctx_running w \<longleftrightarrow>
     (case ctx (audioEngine w) of None \<Rightarrow> True | Some c \<Rightarrow> state c = Running)
     \<and> state (new_AudioContext w) \<noteq> Closed"




text \<open>A browser for the examples: at each draw \<^verbatim>\<open>Math.random()\<close> returns one half.\<close>

definition demo_Browser :: Browser where
  "demo_Browser = new_Browser 0 (\<lambda>i. 1 / 2) \<lparr>currentTime = 0, sampleRate = 2, state = Suspended\<rparr>"

section \<open>The React components\<close>

text \<open>
  \<^verbatim>\<open>App\<close> holds the view and the history; \<^verbatim>\<open>SessionView\<close> is rendered while the view is
  \<^verbatim>\<open>'session'\<close> and holds \<open>elapsed\<close>, \<open>isActive\<close> and \<open>isAudioOn\<close>. State setters are
  modelled as assignments, a render with its effects as the function \<open>commit\<close> applied after
  them. \<open>interval\<close> says whether the timer effect's \<^verbatim>\<open>setInterval\<close> is installed. The value
  stored under \<^verbatim>\<open>'bhvd_history'\<close> is kept as the list it is the JSON text of.
\<close>

datatype View = Splash | Home | Session | History | Settings

text \<open>
  \<^verbatim>\<open>id\<close> is \<^verbatim>\<open>Date.now().toString()\<close>. \<^verbatim>\<open>date\<close> is \<^verbatim>\<open>new Date().toISOString()\<close>; the
  model keeps the instant that string renders, in milliseconds.
\<close>

record SessionRecord =
  record_id :: string
  date :: nat
  duration :: nat
  completed :: bool

fun toString :: "nat \<Rightarrow> string" where
  "toString n =
     (if n < 10 then [char_of (48 + n)]
      else toString (n div 10) @ [char_of (48 + n mod 10)])"

declare toString.simps [simp del]

record SessionView =
  elapsed :: nat
  isActive :: bool
  isAudioOn :: bool
  interval :: bool

record App =
  view :: View
  history :: "SessionRecord list"
  localStorage :: "SessionRecord list option"
  session :: "SessionView option"
  browser :: Browser

text \<open>The initializer of the history state, and the effect \<^verbatim>\<open>// Persist history\<close>.\<close>

definition load_history :: "SessionRecord list option \<Rightarrow> SessionRecord list" where
  "load_history saved = (case saved of Some h \<Rightarrow> h | None \<Rightarrow> [])"

definition persist_history :: "App \<Rightarrow> App" where
  "persist_history a = a\<lparr>localStorage := Some (history a)\<rparr>"

definition handleSessionComplete :: "nat \<Rightarrow> App \<Rightarrow> App" where
  "handleSessionComplete d a =
     (let newRecord = \<lparr>record_id = toString (now_ms (browser a)), date = now_ms (browser a),
                        duration = d, completed = True\<rparr>
      in a\<lparr>history := history a @ [newRecord], view := Home\<rparr>)"

definition handleComplete :: "App \<Rightarrow> App" where
  "handleComplete a =
     (case session a of
        None \<Rightarrow> a
      | Some s \<Rightarrow> handleSessionComplete (elapsed s) (a\<lparr>browser := stop (browser a)\<rparr>))"

text \<open>The two effects of \<^verbatim>\<open>SessionView\<close>, each with its cleanup.\<close>

definition timer_effect :: "App \<Rightarrow> App" where
  "timer_effect a =
     (case session a of
        None \<Rightarrow> a
      | Some s \<Rightarrow>
          if isActive s \<and> elapsed s < TOTAL_TIME then a\<lparr>session := Some (s\<lparr>interval := True\<rparr>)\<rparr>
          else if elapsed s \<ge> TOTAL_TIME then handleComplete a
          else a)"

definition timer_cleanup :: "App \<Rightarrow> App" where
  "timer_cleanup a = a\<lparr>session := map_option (\<lambda>s. s\<lparr>interval := False\<rparr>) (session a)\<rparr>"

definition audio_effect :: "App \<Rightarrow> App" where
  "audio_effect a =
     (case session a of
        None \<Rightarrow> a
      | Some s \<Rightarrow>
          if isActive s \<and> isAudioOn s then a\<lparr>browser := start (browser a)\<rparr>
          else a\<lparr>browser := stop (browser a)\<rparr>)"

definition audio_cleanup :: "App \<Rightarrow> App" where
  "audio_cleanup a = a\<lparr>browser := stop (browser a)\<rparr>"

definition mount_SessionView :: "App \<Rightarrow> App" where
  "mount_SessionView a =
     audio_effect (timer_effect
       (a\<lparr>session := Some \<lparr>elapsed = 0, isActive = True, isAudioOn = True, interval = False\<rparr>\<rparr>))"

definition unmount_SessionView :: "App \<Rightarrow> App" where
  "unmount_SessionView a = (audio_cleanup (timer_cleanup a))\<lparr>session := None\<rparr>"

text \<open>
  The render of \<^verbatim>\<open>App\<close> that follows state changes: \<^verbatim>\<open>SessionView\<close> is mounted or
  unmounted as the view says, then the persistence effect runs if the history is not the one of
  the render before (\<open>old\<close>).
\<close>

definition commit :: "App \<Rightarrow> App \<Rightarrow> App" where
  "commit old a =
     (let a1 = (if view a = Session
                then (if session a = None then mount_SessionView a else a)
                else (if session a = None then a else unmount_SessionView a))
      in if history a1 \<noteq> history old then persist_history a1 else a1)"

definition new_App :: "SessionRecord list option \<Rightarrow> Browser \<Rightarrow> App" where
  "new_App saved b =
     persist_history
       \<lparr>view = Splash, history = load_history saved, localStorage = saved, session = None,
        browser = b\<rparr>"

text \<open>The handlers, and the callback of the timer effect's interval.\<close>

definition handleStart :: "App \<Rightarrow> App" where
  "handleStart a = commit a (a\<lparr>browser := init (browser a), view := Session\<rparr>)"

definition handleSessionExit :: "bool \<Rightarrow> App \<Rightarrow> App" where
  "handleSessionExit confirmed a = (if confirmed then commit a (a\<lparr>view := Home\<rparr>) else a)"

definition interval_callback :: "App \<Rightarrow> App" where
  "interval_callback a =
     (case session a of
        None \<Rightarrow> a
      | Some s \<Rightarrow>
          if \<not> interval s then a
          else
            (let a1 = a\<lparr>session := Some (s\<lparr>elapsed := elapsed s + 1\<rparr>)\<rparr>
             in commit a1 (timer_effect (timer_cleanup a1))))"

definition togglePlay :: "App \<Rightarrow> App" where
  "togglePlay a =
     (case session a of
        None \<Rightarrow> a
      | Some s \<Rightarrow>
          (let a1 = a\<lparr>session := Some (s\<lparr>isActive := \<not> isActive s\<rparr>)\<rparr>
           in commit a1 (audio_effect (timer_effect (audio_cleanup (timer_cleanup a1))))))"

definition toggleAudio :: "App \<Rightarrow> App" where
  "toggleAudio a =
     (case session a of
        None \<Rightarrow> a
      | Some s \<Rightarrow>
          (let a1 = a\<lparr>session := Some (s\<lparr>isAudioOn := \<not> isAudioOn s\<rparr>)\<rparr>
           in commit a1 (audio_effect (audio_cleanup a1))))"

text \<open>Time passing, and a due timeout running, while the app is open.\<close>

definition pass :: "nat \<Rightarrow> App \<Rightarrow> App" where
  "pass ms a = a\<lparr>browser := advance ms (browser a)\<rparr>"

definition timeout_fires :: "App \<Rightarrow> App" where
  "timeout_fires a = a\<lparr>browser := fire (browser a)\<rparr>"

text \<open>
  The interval's callback running after \<open>ms\<close> milliseconds have passed, a sequence of such
  callbacks with the gaps between them, and an app for the examples: nothing stored yet.
\<close>

definition tick_after :: "nat \<Rightarrow> App \<Rightarrow> App" where
  "tick_after ms a = interval_callback (pass ms a)"

definition ticks :: "nat list \<Rightarrow> App \<Rightarrow> App" where
  "ticks gaps a = fold tick_after gaps a"

definition demo_App :: App where
  "demo_App = new_App None demo_Browser"

section \<open>Properties of the phase function\<close>

lemma phase_constants:
  "PHASE_1_END = 120" "PHASE_2_END = 1080" "TOTAL_TIME = 1200"
  by (simp_all add: PHASE_1_END_def PHASE_2_END_def TOTAL_TIME_def)

text \<open>
  Claim C5, as amended. Below \<open>TOTAL_TIME\<close> the phase shown by \<^verbatim>\<open>SessionView\<close> is the
  phase the specification's threshold rule gives for the configuration
  \<open>{total = 1200, entryEnd = 120, immersionEnd = 1080}\<close>: lower bounds inclusive, upper bounds
  exclusive. From \<open>TOTAL_TIME\<close> on the source has no fourth phase: the phase stays \<open>Return\<close>.
\<close>

theorem phase_refines_spec_before_total:
  "(n < TOTAL_TIME \<longrightarrow> phase_as_spec (phase n) = spec_phase_of reference_config n)
   \<and> (TOTAL_TIME \<le> n \<longrightarrow> phase n = Return)"
  by (simp add: phase_def spec_phase_of_def reference_config_def phase_constants)

theorem phase_refines_spec_witness:
  "119 < TOTAL_TIME \<and> phase 119 = Entry \<and> phase 120 = Immersion \<and> phase 1199 = Return
   \<and> phase_as_spec (phase 1199) = spec_phase_of reference_config 1199
   \<and> TOTAL_TIME \<le> 1200 \<and> phase 1200 = Return"
  using phase_refines_spec_before_total [of 119] phase_refines_spec_before_total [of 1199]
    phase_refines_spec_before_total [of 1200]
  by (simp add: phase_def phase_constants spec_phase_of_def reference_config_def)

text \<open>
  Claim C5 as stated fails at \<open>elapsed = 1200\<close>: the specification's rule gives Completed there,
  the source's \<open>phase\<close> gives \<open>Return\<close>.
\<close>

theorem phase_at_total_counterexample:
  "phase_as_spec (phase 1200) \<noteq> spec_phase_of reference_config 1200"
  by (simp add: phase_def spec_phase_of_def reference_config_def phase_constants)

section \<open>Properties of the noise loop\<close>

lemma brown_loop_bounded:
  "\<bar>lastOut\<bar> \<le> 1 \<Longrightarrow> \<forall>r\<in>set rs. -1 \<le> r * 2 - 1 \<and> r * 2 - 1 \<le> 1 \<Longrightarrow>
   \<forall>x\<in>set (brown_loop lastOut rs). -0.35 \<le> x \<and> x \<le> 0.35"
proof (induction rs arbitrary: lastOut)
  case Nil
  then show ?case by simp
next
  case (Cons r rs)
  define w where "w = r * 2 - 1"
  define l where "l = (lastOut + 0.02 * w) / 1.02"
  from Cons.prems have w: "-1 \<le> w" "w \<le> 1" by (simp_all add: w_def)
  from Cons.prems have lo: "-1 \<le> lastOut" "lastOut \<le> 1" by simp_all
  have l1: "\<bar>l\<bar> \<le> 1" using w lo unfolding l_def by (simp add: abs_le_iff field_simps)
  have rest: "\<forall>x\<in>set (brown_loop l rs). -0.35 \<le> x \<and> x \<le> 0.35"
    using Cons.IH [OF l1] Cons.prems(2) by simp
  have hd: "-0.35 \<le> l * 3.5 * 0.1 \<and> l * 3.5 * 0.1 \<le> 0.35" using l1 by (simp add: abs_le_iff)
  have eq: "brown_loop lastOut (r # rs) = l * 3.5 * 0.1 # brown_loop l rs"
    unfolding l_def w_def by (simp only: brown_loop.simps Let_def)
  show ?case unfolding eq using rest hd by (metis set_ConsD)
qed

lemma length_brown_loop: "length (brown_loop lastOut rs) = length rs"
  by (induction rs arbitrary: lastOut) (simp_all add: Let_def)

lemma brown_noise_example: "brown_noise [1, 0] = [7 / 1020, - 7 / 52020]"
  by (simp add: brown_noise_def)

text \<open>
  Claim C9. The draws are given as a sequence \<open>f\<close>, of which the loop reads the first \<open>n\<close>. When
  every white value \<open>f i * 2 - 1\<close> lies in \<open>[-1, 1]\<close>, every sample the loop writes lies in
  \<open>[-0.35, 0.35]\<close>, whatever \<open>n\<close> is; the loop writes \<open>n\<close> samples; and the samples depend on
  nothing but the draws (a second run on draws that agree on the first \<open>n\<close> writes the same
  samples). The filter state starts at 0.
\<close>

theorem brown_noise_bounded:
  assumes "\<forall>i<n. -1 \<le> f i * 2 - 1 \<and> f i * 2 - 1 \<le> 1"
  shows "(\<forall>x\<in>set (brown_noise (map f [0..<n])). -0.35 \<le> x \<and> x \<le> 0.35)
         \<and> length (brown_noise (map f [0..<n])) = n
         \<and> (\<forall>g. (\<forall>i<n. g i = f i) \<longrightarrow>
                brown_noise (map g [0..<n]) = brown_noise (map f [0..<n]))"
proof -
  have "\<forall>r\<in>set (map f [0..<n]). -1 \<le> r * 2 - 1 \<and> r * 2 - 1 \<le> 1" using assms by simp
  then have b: "\<forall>x\<in>set (brown_noise (map f [0..<n])). -0.35 \<le> x \<and> x \<le> 0.35"
    unfolding brown_noise_def by (intro brown_loop_bounded) simp_all
  have d: "\<forall>g. (\<forall>i<n. g i = f i) \<longrightarrow>
             brown_noise (map g [0..<n]) = brown_noise (map f [0..<n])"
  proof (intro allI impI)
    fix g assume "\<forall>i<n. g i = f i"
    then have "map g [0..<n] = map f [0..<n]" by simp
    then show "brown_noise (map g [0..<n]) = brown_noise (map f [0..<n])" by (rule arg_cong)
  qed
  have l: "length (brown_noise (map f [0..<n])) = n"
    by (simp add: brown_noise_def length_brown_loop)
  show ?thesis using b d l by blast
qed

theorem brown_noise_bounded_witness:
  "list_all (\<lambda>x. -0.35 \<le> x \<and> x \<le> 0.35) (brown_noise (map (\<lambda>i. 1) [0..<10000]))
   \<and> length (brown_noise (map (\<lambda>i. 1) [0..<10000])) = 10000"
proof -
  have h: "\<forall>i<10000::nat. -1 \<le> (1::real) * 2 - 1 \<and> (1::real) * 2 - 1 \<le> 1" by simp
  from brown_noise_bounded [of 10000 "\<lambda>i. 1", OF h] show ?thesis
    unfolding list_all_iff by (intro conjI) (elim conjE, assumption)+
qed

section \<open>Properties of the audio engine\<close>

lemma insert_event_append:
  "\<forall>x\<in>set xs. event_time x \<le> event_time e \<Longrightarrow> insert_event e xs = xs @ [e]"
  by (induction xs) auto

lemma events_envelope:
  assumes "0 \<le> d"
  shows "events (linearRampToValueAtTime v1 (t + d) (setValueAtTime v0 t (cancelScheduledValues t p)))
         = filter (\<lambda>e. event_time e < t) (events p)
           @ [SetValueAtTime v0 t, LinearRampToValueAtTime v1 (t + d)]"
proof -
  let ?old = "filter (\<lambda>e. event_time e < t) (events p)"
  have 1: "insert_event (SetValueAtTime v0 t) ?old = ?old @ [SetValueAtTime v0 t]"
    by (rule insert_event_append) auto
  have 2: "insert_event (LinearRampToValueAtTime v1 (t + d)) (?old @ [SetValueAtTime v0 t])
           = (?old @ [SetValueAtTime v0 t]) @ [LinearRampToValueAtTime v1 (t + d)]"
    using assms by (intro insert_event_append) auto
  show ?thesis
    by (simp add: linearRampToValueAtTime_def setValueAtTime_def cancelScheduledValues_def 1 2)
qed

lemma current_value_envelope:
  "current_value (linearRampToValueAtTime v1 t1 (setValueAtTime v0 t (cancelScheduledValues t p)))
   = current_value p"
  by (simp add: linearRampToValueAtTime_def setValueAtTime_def cancelScheduledValues_def)

lemma stop_noop: "\<not> isPlaying (audioEngine w) \<Longrightarrow> stop w = w"
  by (simp add: stop_def Let_def split: option.splits)


lemma engine_inv_new: "engine_inv (new_Browser t r c)"
  by (simp add: engine_inv_def new_Browser_def new_AudioEngine_def)

lemma engine_inv_init: "engine_inv w \<Longrightarrow> engine_inv (init w)"
  by (auto simp: engine_inv_def init_def Let_def split: option.splits)

lemma engine_inv_start: "engine_inv w \<Longrightarrow> engine_inv (start w)"
proof -
  assume inv: "engine_inv w"
  define w1 where "w1 = (if ctx (audioEngine w) = None \<or> gainNode (audioEngine w) = None then init w else w)"
  have inv1: "engine_inv w1" using inv by (simp add: w1_def engine_inv_init)
  have "engine_inv (start w)"
    using inv1 unfolding start_def w1_def [symmetric]
    by (auto simp: engine_inv_def Let_def split: option.splits)
  then show ?thesis .
qed

lemma engine_inv_stop: "engine_inv w \<Longrightarrow> engine_inv (stop w)"
  by (auto simp: engine_inv_def stop_def Let_def split: option.splits)

lemma engine_inv_fire: "engine_inv w \<Longrightarrow> engine_inv (fire w)"
  by (auto simp: engine_inv_def fire_def timeout_callback_def Let_def split: option.splits list.splits)

lemma engine_inv_advance: "engine_inv w \<Longrightarrow> engine_inv (advance ms w)"
  by (auto simp: engine_inv_def advance_def Let_def split: option.splits)

lemma engine_inv_exec: "engine_inv w \<Longrightarrow> engine_inv (exec c w)"
  by (cases c) (simp_all add: engine_inv_init engine_inv_start engine_inv_stop engine_inv_fire engine_inv_advance)

lemma engine_inv_run: "engine_inv w \<Longrightarrow> engine_inv (run cs w)"
  unfolding run_def by (induction cs arbitrary: w) (simp_all add: engine_inv_exec)

lemma engine_inv_reachable: "engine_inv (run cs (new_Browser t r c))"
  by (rule engine_inv_run) (rule engine_inv_new)

lemma ctx_running_new: "state c \<noteq> Closed \<Longrightarrow> ctx_running (new_Browser t r c)"
  by (simp add: ctx_running_def new_Browser_def new_AudioEngine_def)

lemma ctx_running_init: "ctx_running w \<Longrightarrow> ctx_running (init w)"
  by (cases "state (new_AudioContext w)")
     (auto simp: ctx_running_def init_def Let_def split: option.splits)


lemma ctx_running_start: "ctx_running w \<Longrightarrow> ctx_running (start w)"
proof -
  assume inv: "ctx_running w"
  define w1 where "w1 = (if ctx (audioEngine w) = None \<or> gainNode (audioEngine w) = None then init w else w)"
  have inv1: "ctx_running w1" using inv by (simp add: w1_def ctx_running_init)
  have "ctx_running (start w)"
    using inv1 unfolding start_def w1_def [symmetric]
    by (auto simp: ctx_running_def Let_def split: option.splits)
  then show ?thesis .
qed

lemma ctx_running_stop: "ctx_running w \<Longrightarrow> ctx_running (stop w)"
  by (auto simp: ctx_running_def stop_def Let_def split: option.splits)

lemma ctx_running_fire: "ctx_running w \<Longrightarrow> ctx_running (fire w)"
  by (auto simp: ctx_running_def fire_def timeout_callback_def Let_def split: option.splits list.splits)

lemma ctx_running_advance: "ctx_running w \<Longrightarrow> ctx_running (advance ms w)"
  by (auto simp: ctx_running_def advance_def Let_def split: option.splits)

lemma ctx_running_exec: "ctx_running w \<Longrightarrow> ctx_running (exec c w)"
  by (cases c) (simp_all add: ctx_running_init ctx_running_start ctx_running_stop ctx_running_fire ctx_running_advance)

lemma ctx_running_run: "ctx_running w \<Longrightarrow> ctx_running (run cs w)"
  unfolding run_def by (induction cs arbitrary: w) (simp_all add: ctx_running_exec)

lemma filter_envelope_upcoming:
  assumes "0 \<le> d"
  shows "filter (\<lambda>e. t \<le> event_time e)
           (filter (\<lambda>e. event_time e < t) old @ [SetValueAtTime v0 t, LinearRampToValueAtTime v1 (t + d)])
         = [SetValueAtTime v0 t, LinearRampToValueAtTime v1 (t + d)]"
proof -
  have "filter (\<lambda>e. t \<le> event_time e) (filter (\<lambda>e. event_time e < t) old) = []"
    by (induction old) auto
  then show ?thesis using assms by simp
qed

lemma filter_envelope_ramps:
  assumes "0 < d"
  shows "filter (\<lambda>e. is_ramp e \<and> t < event_time e)
           (filter (\<lambda>e. event_time e < t) old @ [SetValueAtTime v0 t, LinearRampToValueAtTime v1 (t + d)])
         = [LinearRampToValueAtTime v1 (t + d)]"
proof -
  have "filter (\<lambda>e. is_ramp e \<and> t < event_time e) (filter (\<lambda>e. event_time e < t) old) = []"
    by (induction old) auto
  then show ?thesis using assms by simp
qed


lemma stop_effective:
  assumes "engine_inv w" and "isPlaying (audioEngine w)"
  obtains c g where
    "ctx (audioEngine w) = Some c" and "gainNode (audioEngine w) = Some g"
    and "stop w = w
           \<lparr>audioEngine := (audioEngine w)
              \<lparr>gainNode := Some (g\<lparr>gain :=
                 linearRampToValueAtTime 0 (currentTime c + 1)
                   (setValueAtTime (current_value (gain g)) (currentTime c)
                     (cancelScheduledValues (currentTime c) (gain g)))\<rparr>)\<rparr>,
            timeouts := timeouts w @ [now_ms w + 1000]\<rparr>"
proof -
  from assms obtain c where c: "ctx (audioEngine w) = Some c" by (auto simp: engine_inv_def)
  with assms(1) obtain g where g: "gainNode (audioEngine w) = Some g" by (auto simp: engine_inv_def)
  from assms obtain src where s: "source (audioEngine w) = Some src" by (auto simp: engine_inv_def)
  have "stop w = w
           \<lparr>audioEngine := (audioEngine w)
              \<lparr>gainNode := Some (g\<lparr>gain :=
                 linearRampToValueAtTime 0 (currentTime c + 1)
                   (setValueAtTime (current_value (gain g)) (currentTime c)
                     (cancelScheduledValues (currentTime c) (gain g)))\<rparr>)\<rparr>,
            timeouts := timeouts w @ [now_ms w + 1000]\<rparr>"
    unfolding stop_def using c g s assms(2)
    by (simp add: Let_def cancelScheduledValues_def setValueAtTime_def linearRampToValueAtTime_def)
  with c g show thesis by (rule that)
qed

lemma upcoming_envelope:
  assumes "ctx (audioEngine w) = Some c"
    and "gainNode (audioEngine w) = Some (g\<lparr>gain :=
           linearRampToValueAtTime v1 (currentTime c + d)
             (setValueAtTime v0 (currentTime c) (cancelScheduledValues (currentTime c) p))\<rparr>)"
    and "0 \<le> d"
  shows "upcoming w = [SetValueAtTime v0 (currentTime c), LinearRampToValueAtTime v1 (currentTime c + d)]"
  using assms by (simp add: upcoming_def events_envelope filter_envelope_upcoming)

lemma upcoming_start:
  assumes "engine_inv w" and "\<not> isPlaying (audioEngine w)"
  shows "\<exists>c. ctx (audioEngine (start w)) = Some c \<and>
           upcoming (start w) = [SetValueAtTime 0 (currentTime c),
                                 LinearRampToValueAtTime 0.5 (currentTime c + 2)]"
proof -
  define w1 where "w1 = (if ctx (audioEngine w) = None \<or> gainNode (audioEngine w) = None then init w else w)"
  have inv1: "engine_inv w1" using assms(1) by (simp add: w1_def engine_inv_init)
  have np: "\<not> isPlaying (audioEngine w1)"
    using assms(2) by (auto simp: w1_def init_def Let_def split: option.splits)
  have "ctx (audioEngine w1) \<noteq> None"
    using assms(1) by (auto simp: w1_def engine_inv_def init_def Let_def split: option.splits)
  then obtain c where c: "ctx (audioEngine w1) = Some c" by auto
  with inv1 obtain g where g: "gainNode (audioEngine w1) = Some g" by (auto simp: engine_inv_def)
  have c': "ctx (audioEngine (start w)) = Some c"
    using np c g by (simp add: start_def w1_def [symmetric] Let_def)
  have "upcoming (start w) = [SetValueAtTime 0 (currentTime c),
                              LinearRampToValueAtTime 0.5 (currentTime c + 2)]"
    by (rule upcoming_envelope [where g = g and p = "gain g"])
       (use np c g in \<open>simp_all add: start_def w1_def [symmetric] Let_def\<close>)
  with c' show ?thesis by blast
qed

lemma upcoming_stop:
  assumes "engine_inv w" and "isPlaying (audioEngine w)"
  shows "\<exists>c g. ctx (audioEngine w) = Some c \<and> gainNode (audioEngine w) = Some g \<and>
           ctx (audioEngine (stop w)) = Some c \<and>
           upcoming (stop w) = [SetValueAtTime (current_value (gain g)) (currentTime c),
                                LinearRampToValueAtTime 0 (currentTime c + 1)]"
proof -
  from assms obtain c g where c: "ctx (audioEngine w) = Some c" and g: "gainNode (audioEngine w) = Some g"
    and st: "stop w = w
           \<lparr>audioEngine := (audioEngine w)
              \<lparr>gainNode := Some (g\<lparr>gain :=
                 linearRampToValueAtTime 0 (currentTime c + 1)
                   (setValueAtTime (current_value (gain g)) (currentTime c)
                     (cancelScheduledValues (currentTime c) (gain g)))\<rparr>)\<rparr>,
            timeouts := timeouts w @ [now_ms w + 1000]\<rparr>"
    by (rule stop_effective)
  show ?thesis unfolding st upcoming_def using c g
    by (simp add: events_envelope filter_envelope_upcoming)
qed

lemma length_filter_mono:
  "(\<And>x. P x \<Longrightarrow> Q x) \<Longrightarrow> length (filter P xs) \<le> length (filter Q xs)"
  by (induction xs) auto

lemma pending_ramps_init:
  "length (pending_ramps w) \<le> 1 \<Longrightarrow> length (pending_ramps (init w)) \<le> 1"
  by (auto simp: pending_ramps_def init_def Let_def split: option.splits if_splits)

lemma pending_ramps_envelope:
  assumes "ctx (audioEngine w) = Some c"
    and "gainNode (audioEngine w) = Some (g\<lparr>gain :=
           linearRampToValueAtTime v1 (currentTime c + d)
             (setValueAtTime v0 (currentTime c) (cancelScheduledValues (currentTime c) p))\<rparr>)"
    and "0 < d"
  shows "pending_ramps w = [LinearRampToValueAtTime v1 (currentTime c + d)]"
  using assms by (simp add: pending_ramps_def events_envelope filter_envelope_ramps)

lemma pending_ramps_start:
  assumes "length (pending_ramps w) \<le> 1"
  shows "length (pending_ramps (start w)) \<le> 1"
proof -
  define w1 where "w1 = (if ctx (audioEngine w) = None \<or> gainNode (audioEngine w) = None then init w else w)"
  have p1: "length (pending_ramps w1) \<le> 1"
    unfolding w1_def using assms pending_ramps_init [OF assms] by (simp split: if_splits)
  show ?thesis
  proof (cases "isPlaying (audioEngine w1)")
    case True
    then have "start w = w1" by (simp add: start_def w1_def Let_def)
    then show ?thesis using p1 by simp
  next
    case False
    show ?thesis
    proof (cases "ctx (audioEngine w1)")
      case None
      then have "start w = w1" using False by (simp add: start_def w1_def [symmetric] Let_def)
      then show ?thesis using p1 by simp
    next
      case (Some c)
      show ?thesis
      proof (cases "gainNode (audioEngine w1)")
        case None
        then have "pending_ramps (start w) = []"
          using False Some by (simp add: start_def w1_def [symmetric] Let_def pending_ramps_def)
        then show ?thesis by simp
      next
        case g: (Some g)
        have "pending_ramps (start w) = [LinearRampToValueAtTime 0.5 (currentTime c + 2)]"
          by (rule pending_ramps_envelope [where g = g and ?v0.0 = 0 and p = "gain g"])
             (use False Some g in \<open>simp_all add: start_def w1_def [symmetric] Let_def\<close>)
        then show ?thesis by simp
      qed
    qed
  qed
qed

lemma pending_ramps_stop:
  assumes "length (pending_ramps w) \<le> 1"
  shows "length (pending_ramps (stop w)) \<le> 1"
proof (cases "ctx (audioEngine w)")
  case None
  then show ?thesis using assms by (simp add: stop_def)
next
  case (Some c)
  show ?thesis
  proof (cases "\<not> isPlaying (audioEngine w) \<or> source (audioEngine w) = None")
    case True
    then have "stop w = w" using Some by (auto simp: stop_def Let_def)
    then show ?thesis using assms by simp
  next
    case False
    show ?thesis
    proof (cases "gainNode (audioEngine w)")
      case None
      then have "pending_ramps (stop w) = []"
        using False Some by (auto simp: stop_def Let_def pending_ramps_def)
      then show ?thesis by simp
    next
      case g: (Some g)
      have "pending_ramps (stop w) = [LinearRampToValueAtTime 0 (currentTime c + 1)]"
        by (rule pending_ramps_envelope [where g = g and ?v0.0 = "current_value (gain g)" and p = "gain g"])
           (use False Some g in \<open>auto simp: stop_def Let_def cancelScheduledValues_def\<close>)
      then show ?thesis by simp
    qed
  qed
qed

lemma fire_keeps_gain:
  "ctx (audioEngine (fire w)) = ctx (audioEngine w)"
  "gainNode (audioEngine (fire w)) = gainNode (audioEngine w)"
  by (simp_all add: fire_def timeout_callback_def Let_def split: list.splits)

lemma pending_ramps_fire: "pending_ramps (fire w) = pending_ramps w"
  by (simp add: pending_ramps_def fire_keeps_gain)

lemma pending_ramps_advance: "length (pending_ramps (advance ms w)) \<le> length (pending_ramps w)"
proof (cases "ctx (audioEngine w)")
  case None
  then show ?thesis by (simp add: pending_ramps_def advance_def Let_def)
next
  case (Some c)
  show ?thesis
  proof (cases "gainNode (audioEngine w)")
    case None
    then show ?thesis using Some by (simp add: pending_ramps_def advance_def Let_def)
  next
    case g: (Some g)
    show ?thesis using Some g
      by (auto simp: pending_ramps_def advance_def Let_def render_def intro!: length_filter_mono)
  qed
qed

lemma pending_ramps_exec:
  assumes "length (pending_ramps w) \<le> 1"
  shows "length (pending_ramps (exec c w)) \<le> 1"
proof (cases c)
  case Init
  then show ?thesis using pending_ramps_init [OF assms] by simp
next
  case Start
  then show ?thesis using pending_ramps_start [OF assms] by simp
next
  case Stop
  then show ?thesis using pending_ramps_stop [OF assms] by simp
next
  case Fire
  then show ?thesis using assms by (simp add: pending_ramps_fire)
next
  case (Advance ms)
  with pending_ramps_advance [of ms w] assms show ?thesis by simp
qed

lemma pending_ramps_run:
  "length (pending_ramps w) \<le> 1 \<Longrightarrow> length (pending_ramps (run cs w)) \<le> 1"
  unfolding run_def
proof (induction cs arbitrary: w)
  case Nil
  then show ?case by simp
next
  case (Cons c cs)
  from Cons.prems have "length (pending_ramps (exec c w)) \<le> 1" by (rule pending_ramps_exec)
  then have "length (pending_ramps (fold exec cs (exec c w))) \<le> 1" by (rule Cons.IH)
  then show ?case by simp
qed

lemma pending_ramps_new: "pending_ramps (new_Browser t r c) = []"
  by (simp add: pending_ramps_def new_Browser_def new_AudioEngine_def)

lemmas engine_defs = run_def start_def init_def stop_def fire_def timeout_callback_def advance_def
  render_def value_at_def cancelScheduledValues_def setValueAtTime_def linearRampToValueAtTime_def
  new_Browser_def new_AudioEngine_def demo_Browser_def brown_noise_def Let_def

text \<open>
  Claim C7. In every state \<open>w\<close> that calls of the engine's methods, timeouts and the passing of
  time reach from a new engine, the gain's timeline holds at most one ramp that has not ended.
  That is so because each of the two methods that schedule an envelope cancels first: after a
  \<^verbatim>\<open>start\<close> that takes effect the events from the current time on are exactly its own set-value
  and its ramp to 0.5 two seconds later, and after a \<^verbatim>\<open>stop\<close> that takes effect they are
  exactly its own set-value and its ramp to 0 one second later.
\<close>

theorem at_most_one_envelope:
  fixes cs t r c
  defines "w \<equiv> run cs (new_Browser t r c)"
  shows "length (pending_ramps w) \<le> 1
    \<and> (\<not> isPlaying (audioEngine w) \<longrightarrow>
         (\<exists>c'. ctx (audioEngine (start w)) = Some c' \<and>
            upcoming (start w) = [SetValueAtTime 0 (currentTime c'),
                                  LinearRampToValueAtTime 0.5 (currentTime c' + 2)]))
    \<and> (isPlaying (audioEngine w) \<longrightarrow>
         (\<exists>c' g. ctx (audioEngine w) = Some c' \<and> gainNode (audioEngine w) = Some g \<and>
            ctx (audioEngine (stop w)) = Some c' \<and>
            upcoming (stop w) = [SetValueAtTime (current_value (gain g)) (currentTime c'),
                                 LinearRampToValueAtTime 0 (currentTime c' + 1)]))"
proof -
  have inv: "engine_inv w" unfolding w_def by (rule engine_inv_reachable)
  have a: "length (pending_ramps w) \<le> 1"
    unfolding w_def by (rule pending_ramps_run) (simp add: pending_ramps_new)
  show ?thesis using a upcoming_start [OF inv] upcoming_stop [OF inv] by blast
qed

theorem at_most_one_envelope_witness:
  "length (pending_ramps (run [Start, Advance 1000] demo_Browser)) \<le> 1
   \<and> isPlaying (audioEngine (run [Start, Advance 1000] demo_Browser))
   \<and> upcoming (stop (run [Start, Advance 1000] demo_Browser))
       = [SetValueAtTime (1 / 4) 1, LinearRampToValueAtTime 0 2]
   \<and> \<not> isPlaying (audioEngine (run [] demo_Browser))
   \<and> upcoming (start (run [] demo_Browser))
       = [SetValueAtTime 0 0, LinearRampToValueAtTime (1 / 2) 2]"
  using at_most_one_envelope [of "[Start, Advance 1000]" 0 "\<lambda>i. 1 / 2" "\<lparr>currentTime = 0, sampleRate = 2, state = Suspended\<rparr>"]
    at_most_one_envelope [of "[]" 0 "\<lambda>i. 1 / 2" "\<lparr>currentTime = 0, sampleRate = 2, state = Suspended\<rparr>"]
  by (simp add: engine_defs upcoming_def pending_ramps_def)

lemma automation_skip:
  "\<forall>e\<in>set xs. event_time e \<le> t \<Longrightarrow> t1 \<le> t \<Longrightarrow>
   automation v0 t0 (xs @ SetValueAtTime v1 t1 # es) t = automation v1 t1 es t"
proof (induction xs arbitrary: v0 t0)
  case Nil
  then show ?case by simp
next
  case (Cons x xs)
  then show ?case by (cases x) simp_all
qed

lemma value_at_envelope:
  assumes "t \<le> u" and "u < t + d"
  shows "value_at (linearRampToValueAtTime v1 (t + d) (setValueAtTime v0 t (cancelScheduledValues t p))) u
         = v0 + (v1 - v0) * ((u - t) / d)"
proof -
  have d: "0 \<le> d" using assms by simp
  have "\<forall>e\<in>set (filter (\<lambda>e. event_time e < t) (events p)). event_time e \<le> u"
    using assms(1) by auto
  then show ?thesis
    unfolding value_at_def events_envelope [OF d]
    using assms by (simp add: automation_skip)
qed

lemma advance_running:
  assumes "ctx (audioEngine w) = Some c" and "state c = Running"
    and "gainNode (audioEngine w) = Some g"
  shows "advance ms w = w
           \<lparr>now_ms := now_ms w + ms,
            audioEngine := (audioEngine w)
              \<lparr>ctx := Some (c\<lparr>currentTime := currentTime c + real ms / 1000\<rparr>),
               gainNode := Some (g\<lparr>gain := render (currentTime c + real ms / 1000) (gain g)\<rparr>)\<rparr>\<rparr>"
  using assms by (simp add: advance_def Let_def)




text \<open>
  It also fails when the timeout of an earlier \<^verbatim>\<open>stop\<close> has run during the fade-in: the
  flag \<open>isPlaying\<close> is cleared, \<^verbatim>\<open>stop\<close> returns at its guard and the ramp of the fade-in
  stays pending.
\<close>

lemma stop_after_stale_timeout:
  "\<not> isPlaying (audioEngine (run [Start, Advance 5000, Stop, Advance 500, Stop, Advance 500, Fire,
        Advance 200, Start, Advance 300, Fire] demo_Browser))
   \<and> pending_ramps (run [Start, Advance 5000, Stop, Advance 500, Stop, Advance 500, Fire,
        Advance 200, Start, Advance 300, Fire] demo_Browser)
       = [LinearRampToValueAtTime (1 / 2) (41 / 5)]
   \<and> pending_ramps (stop (run [Start, Advance 5000, Stop, Advance 500, Stop, Advance 500, Fire,
        Advance 200, Start, Advance 300, Fire] demo_Browser))
       = [LinearRampToValueAtTime (1 / 2) (41 / 5)]"
  by (simp add: engine_defs pending_ramps_def del: upt_rec_numeral)



lemma stop_frame:
  "isPlaying (audioEngine (stop w)) = isPlaying (audioEngine w)"
  "source (audioEngine (stop w)) = source (audioEngine w)"
  "ctx (audioEngine (stop w)) = ctx (audioEngine w)"
  "drawn (stop w) = drawn w" "now_ms (stop w) = now_ms w" "rand (stop w) = rand w"
  by (simp_all add: stop_def Let_def split: option.splits)

lemma advance_frame:
  "isPlaying (audioEngine (advance ms w)) = isPlaying (audioEngine w)"
  "source (audioEngine (advance ms w)) = source (audioEngine w)"
  "drawn (advance ms w) = drawn w" "now_ms (advance ms w) = now_ms w + ms"
  "timeouts (advance ms w) = timeouts w"
  by (simp_all add: advance_def Let_def split: option.splits)



lemma timeouts_stop:
  "engine_inv w \<Longrightarrow> isPlaying (audioEngine w) \<Longrightarrow> timeouts (stop w) = timeouts w @ [now_ms w + 1000]"
  by (auto simp: engine_inv_def stop_def Let_def split: option.splits)





lemma demo_at_second_stop:
  "run [Start, Advance 5000, Stop, Advance 500] demo_Browser =
     \<lparr>audioEngine =
        \<lparr>ctx = Some \<lparr>currentTime = 11 / 2, sampleRate = 2, state = Running\<rparr>,
         gainNode = Some \<lparr>gain = \<lparr>current_value = 1 / 4,
            events = [SetValueAtTime 0 0, LinearRampToValueAtTime (1 / 2) 2,
                      SetValueAtTime (1 / 2) 5, LinearRampToValueAtTime 0 6]\<rparr>\<rparr>,
         source = Some \<lparr>buffer = brown_noise (map (\<lambda>i. 1 / 2) [0..<10]), loop = True, connected = True, playing = True\<rparr>,
         isPlaying = True\<rparr>,
      timeouts = [6000], now_ms = 5500, rand = (\<lambda>i. 1 / 2), drawn = 10,
      new_AudioContext = \<lparr>currentTime = 0, sampleRate = 2, state = Suspended\<rparr>\<rparr>"
  by (simp add: engine_defs del: upt_rec_numeral)




text \<open>
  Claim C4, as amended. Let the engine be playing in a reachable state, let \<^verbatim>\<open>stop\<close> be called,
  and again \<open>ms\<close> milliseconds later with no timeout run in between. The second call is not a
  no-op: two timeouts are queued, and the events from the current time on are a set-value of the
  gain read at the second call and a ramp to 0 that ends one second after the second call. For
  \<open>ms < 1000\<close> the gain read is the partly faded value. \<^verbatim>\<open>stop\<close> is a no-op once the timeout
  has run and cleared \<open>isPlaying\<close>.
\<close>

theorem second_stop_reschedules:
  fixes pre t r c ms
  defines "w \<equiv> run pre (new_Browser t r c)"
  assumes "state c \<noteq> Closed" and "isPlaying (audioEngine w)"
  shows "\<exists>c0 g0 g1.
           ctx (audioEngine w) = Some c0 \<and> gainNode (audioEngine w) = Some g0
         \<and> gainNode (audioEngine (advance ms (stop w))) = Some g1
         \<and> timeouts (stop (advance ms (stop w))) = timeouts w @ [now_ms w + 1000, now_ms w + ms + 1000]
         \<and> upcoming (stop (advance ms (stop w)))
             = [SetValueAtTime (current_value (gain g1)) (currentTime c0 + real ms / 1000),
                LinearRampToValueAtTime 0 (currentTime c0 + real ms / 1000 + 1)]
         \<and> (ms < 1000 \<longrightarrow>
               current_value (gain g1)
               = current_value (gain g0) + (0 - current_value (gain g0)) * (real ms / 1000))
         \<and> (timeouts w = [] \<longrightarrow>
               stop (fire (advance 1000 (stop w))) = fire (advance 1000 (stop w)))"
proof -
  have inv: "engine_inv w" unfolding w_def by (rule engine_inv_reachable)
  have rn: "ctx_running w" unfolding w_def using assms(2) by (intro ctx_running_run ctx_running_new)
  from inv assms(3) obtain c0 g0 where c0: "ctx (audioEngine w) = Some c0"
    and g0: "gainNode (audioEngine w) = Some g0"
    and st: "stop w = w
           \<lparr>audioEngine := (audioEngine w)
              \<lparr>gainNode := Some (g0\<lparr>gain :=
                 linearRampToValueAtTime 0 (currentTime c0 + 1)
                   (setValueAtTime (current_value (gain g0)) (currentTime c0)
                     (cancelScheduledValues (currentTime c0) (gain g0)))\<rparr>)\<rparr>,
            timeouts := timeouts w @ [now_ms w + 1000]\<rparr>"
    by (rule stop_effective)
  have r0: "state c0 = Running" using rn c0 by (simp add: ctx_running_def)
  define env where "env = linearRampToValueAtTime 0 (currentTime c0 + 1)
                   (setValueAtTime (current_value (gain g0)) (currentTime c0)
                     (cancelScheduledValues (currentTime c0) (gain g0)))"
  define u where "u = currentTime c0 + real ms / 1000"
  define w1 where "w1 = advance ms (stop w)"
  have sc: "ctx (audioEngine (stop w)) = Some c0"
    and sg: "gainNode (audioEngine (stop w)) = Some (g0\<lparr>gain := env\<rparr>)"
    unfolding st env_def using c0 by simp_all
  have adv: "w1 = (stop w)
           \<lparr>now_ms := now_ms (stop w) + ms,
            audioEngine := (audioEngine (stop w))
              \<lparr>ctx := Some (c0\<lparr>currentTime := u\<rparr>),
               gainNode := Some ((g0\<lparr>gain := env\<rparr>)\<lparr>gain := render u (gain (g0\<lparr>gain := env\<rparr>))\<rparr>)\<rparr>\<rparr>"
    unfolding w1_def u_def by (rule advance_running [OF sc r0 sg])
  define g1 where "g1 = g0\<lparr>gain := render u env\<rparr>"
  have c1: "ctx (audioEngine w1) = Some (c0\<lparr>currentTime := u\<rparr>)"
    and g1: "gainNode (audioEngine w1) = Some g1"
    unfolding adv g1_def by simp_all
  have p1: "isPlaying (audioEngine w1)"
    unfolding w1_def using assms(3) by (simp add: advance_frame stop_frame)
  have inv1: "engine_inv w1" unfolding w1_def using inv by (intro engine_inv_advance engine_inv_stop)
  have t1: "timeouts w1 = timeouts w @ [now_ms w + 1000]" "now_ms w1 = now_ms w + ms"
    unfolding w1_def using inv assms(3) by (simp_all add: advance_frame stop_frame timeouts_stop)
  have t2: "timeouts (stop w1) = timeouts w @ [now_ms w + 1000, now_ms w + ms + 1000]"
    using timeouts_stop [OF inv1 p1] t1 by simp
  from upcoming_stop [OF inv1 p1] c1 g1
  have up: "upcoming (stop w1) = [SetValueAtTime (current_value (gain g1)) u,
                LinearRampToValueAtTime 0 (u + 1)]"
    by auto
  have val: "ms < 1000 \<longrightarrow> current_value (gain g1)
               = current_value (gain g0) + (0 - current_value (gain g0)) * (real ms / 1000)"
  proof
    assume "ms < 1000"
    then have u: "currentTime c0 \<le> u" "u < currentTime c0 + 1" by (simp_all add: u_def)
    show "current_value (gain g1)
               = current_value (gain g0) + (0 - current_value (gain g0)) * (real ms / 1000)"
      unfolding g1_def render_def env_def
      using value_at_envelope [OF u, where ?v1.0 = 0 and ?v0.0 = "current_value (gain g0)" and p = "gain g0"]
      by (simp add: u_def)
  qed
  have noop: "timeouts w = [] \<longrightarrow> stop (fire (advance 1000 (stop w))) = fire (advance 1000 (stop w))"
  proof
    assume e: "timeouts w = []"
    have ts: "timeouts (stop w) = [now_ms w + 1000]" using timeouts_stop [OF inv assms(3)] e by simp
    have "\<not> isPlaying (audioEngine (fire (advance 1000 (stop w))))"
      by (simp add: ts fire_def advance_frame stop_frame timeout_callback_def Let_def)
    then show "stop (fire (advance 1000 (stop w))) = fire (advance 1000 (stop w))" by (rule stop_noop)
  qed
  show ?thesis using c0 g0 g1 t2 up val noop unfolding w1_def u_def by blast
qed

theorem second_stop_reschedules_witness:
  "state \<lparr>currentTime = 0, sampleRate = 2, state = Suspended\<rparr> \<noteq> Closed
   \<and> isPlaying (audioEngine (run [Start, Advance 5000] demo_Browser))
   \<and> timeouts (run [Start, Advance 5000] demo_Browser) = []
   \<and> timeouts (stop (advance 500 (stop (run [Start, Advance 5000] demo_Browser)))) = [6000, 6500]
   \<and> upcoming (stop (advance 500 (stop (run [Start, Advance 5000] demo_Browser))))
       = [SetValueAtTime (1 / 4) (11 / 2), LinearRampToValueAtTime 0 (13 / 2)]
   \<and> stop (fire (advance 1000 (stop (run [Start, Advance 5000] demo_Browser))))
       = fire (advance 1000 (stop (run [Start, Advance 5000] demo_Browser)))"
  using second_stop_reschedules [of "\<lparr>currentTime = 0, sampleRate = 2, state = Suspended\<rparr>"
      "[Start, Advance 5000]" 0 "\<lambda>i. 1 / 2" 500]
  by (simp add: engine_defs upcoming_def del: upt_rec_numeral)

text \<open>
  Claim C4 as stated fails: the engine plays at gain 0.5, \<^verbatim>\<open>stop\<close> is called at 5 s and again
  at 5.5 s. Before the second call the pending ramp ends at 6 s and one timeout is queued; after
  it the ramp starts again from 0.25 and ends at 6.5 s, and two timeouts are queued.
\<close>

theorem second_stop_counterexample:
  "isPlaying (audioEngine (run [Start, Advance 5000] demo_Browser))
   \<and> upcoming (advance 500 (stop (run [Start, Advance 5000] demo_Browser)))
       = [LinearRampToValueAtTime 0 6]
   \<and> timeouts (advance 500 (stop (run [Start, Advance 5000] demo_Browser))) = [6000]
   \<and> upcoming (stop (advance 500 (stop (run [Start, Advance 5000] demo_Browser))))
       = [SetValueAtTime (1 / 4) (11 / 2), LinearRampToValueAtTime 0 (13 / 2)]
   \<and> timeouts (stop (advance 500 (stop (run [Start, Advance 5000] demo_Browser)))) = [6000, 6500]
   \<and> stop (advance 500 (stop (run [Start, Advance 5000] demo_Browser)))
       \<noteq> advance 500 (stop (run [Start, Advance 5000] demo_Browser))"
proof -
  have a: "upcoming (advance 500 (stop (run [Start, Advance 5000] demo_Browser)))
       = [LinearRampToValueAtTime 0 6]"
    and b: "timeouts (advance 500 (stop (run [Start, Advance 5000] demo_Browser))) = [6000]"
    and c: "upcoming (stop (advance 500 (stop (run [Start, Advance 5000] demo_Browser))))
       = [SetValueAtTime (1 / 4) (11 / 2), LinearRampToValueAtTime 0 (13 / 2)]"
    and d: "timeouts (stop (advance 500 (stop (run [Start, Advance 5000] demo_Browser)))) = [6000, 6500]"
    and e: "isPlaying (audioEngine (run [Start, Advance 5000] demo_Browser))"
    by (simp_all add: engine_defs upcoming_def del: upt_rec_numeral)
  have "timeouts (stop (advance 500 (stop (run [Start, Advance 5000] demo_Browser))))
        \<noteq> timeouts (advance 500 (stop (run [Start, Advance 5000] demo_Browser)))"
    unfolding b d by simp
  then have "stop (advance 500 (stop (run [Start, Advance 5000] demo_Browser)))
       \<noteq> advance 500 (stop (run [Start, Advance 5000] demo_Browser))" by auto
  with a b c d e show ?thesis by simp
qed

section \<open>Properties of the session and the history\<close>

lemma start_frame:
  "timeouts (start w) = timeouts w" "now_ms (start w) = now_ms w"
  by (simp_all add: start_def init_def Let_def split: option.splits)

lemma init_frame:
  "isPlaying (audioEngine (init w)) = isPlaying (audioEngine w)"
  "source (audioEngine (init w)) = source (audioEngine w)"
  "drawn (init w) = drawn w"
  by (simp_all add: init_def Let_def split: option.splits)

lemma timeouts_stop_stop:
  assumes "engine_inv w" and "isPlaying (audioEngine w)"
  shows "timeouts (stop (stop w)) = timeouts w @ [now_ms w + 1000, now_ms w + 1000]"
proof -
  have 1: "timeouts (stop w) = timeouts w @ [now_ms w + 1000]" using assms by (rule timeouts_stop)
  have "timeouts (stop (stop w)) = timeouts (stop w) @ [now_ms (stop w) + 1000]"
    using assms by (intro timeouts_stop engine_inv_stop) (simp_all add: stop_frame)
  then show ?thesis by (simp add: 1 stop_frame)
qed

lemma handleStart_session:
  assumes "session a = None"
  shows "session (handleStart a) = Some \<lparr>elapsed = 0, isActive = True, isAudioOn = True, interval = True\<rparr>"
    and "browser (handleStart a) = start (init (browser a))"
    and "history (handleStart a) = history a" and "view (handleStart a) = Session"
    and "localStorage (handleStart a) = localStorage a"
  using assms
  by (simp_all add: handleStart_def commit_def mount_SessionView_def timer_effect_def audio_effect_def
      TOTAL_TIME_def Let_def)

lemma new_App_fields:
  "session (new_App saved b) = None" "history (new_App saved b) = load_history saved"
  "browser (new_App saved b) = b" "view (new_App saved b) = Splash"
  "localStorage (new_App saved b) = Some (load_history saved)"
  by (simp_all add: new_App_def persist_history_def)

lemma pass_fields:
  "session (pass ms a) = session a" "history (pass ms a) = history a"
  "browser (pass ms a) = advance ms (browser a)" "view (pass ms a) = view a"
  "localStorage (pass ms a) = localStorage a"
  by (simp_all add: pass_def)

lemma tick_below_total:
  assumes "session a = Some s" and "interval s" and "isActive s" and "elapsed s + 1 < TOTAL_TIME"
    and "view a = Session"
  shows "interval_callback a = a\<lparr>session := Some (s\<lparr>elapsed := elapsed s + 1\<rparr>)\<rparr>"
  using assms
  by (simp add: interval_callback_def commit_def timer_effect_def timer_cleanup_def Let_def)

lemma tick_at_total:
  assumes "session a = Some s" and "interval s" and "elapsed s + 1 = TOTAL_TIME"
  shows "interval_callback a =
           a\<lparr>history := history a @
                [\<lparr>record_id = toString (now_ms (browser a)), date = now_ms (browser a),
                  duration = TOTAL_TIME, completed = True\<rparr>],
             view := Home, session := None,
             browser := stop (stop (browser a)),
             localStorage := Some (history a @
                [\<lparr>record_id = toString (now_ms (browser a)), date = now_ms (browser a),
                  duration = TOTAL_TIME, completed = True\<rparr>])\<rparr>"
  using assms
  by (simp add: interval_callback_def commit_def timer_effect_def timer_cleanup_def Let_def
      handleComplete_def handleSessionComplete_def unmount_SessionView_def audio_cleanup_def
      persist_history_def stop_frame)

lemma handleSessionExit_fields:
  "history (handleSessionExit confirmed a) = history a"
  "localStorage (handleSessionExit confirmed a) = localStorage a"
  by (simp_all add: handleSessionExit_def commit_def unmount_SessionView_def audio_cleanup_def
      timer_cleanup_def mount_SessionView_def timer_effect_def audio_effect_def TOTAL_TIME_def Let_def)

lemma handleSessionExit_confirmed:
  assumes "session a = Some s" and "view a = Session"
  shows "handleSessionExit True a = a\<lparr>view := Home, session := None, browser := stop (browser a)\<rparr>"
  using assms
  by (simp add: handleSessionExit_def commit_def unmount_SessionView_def audio_cleanup_def
      timer_cleanup_def Let_def)

text \<open>
  Pausing an active session calls \<^verbatim>\<open>stop\<close> twice in a row: the cleanup of the audio effect,
  then the effect itself.
\<close>

lemma pause_stops_twice:
  assumes "session a = Some s" and "isActive s" and "elapsed s < TOTAL_TIME" and "view a = Session"
  shows "browser (togglePlay a) = stop (stop (browser a))"
    and "session (togglePlay a) = Some (s\<lparr>isActive := False, interval := False\<rparr>)"
  using assms
  by (simp_all add: togglePlay_def commit_def timer_effect_def timer_cleanup_def audio_effect_def
      audio_cleanup_def Let_def)

lemma fold_advance_frame:
  "timeouts (fold advance gaps w) = timeouts w"
  "now_ms (fold advance gaps w) = now_ms w + sum_list gaps"
  "isPlaying (audioEngine (fold advance gaps w)) = isPlaying (audioEngine w)"
  by (induction gaps arbitrary: w) (simp_all add: advance_frame)

lemma engine_inv_fold_advance: "engine_inv w \<Longrightarrow> engine_inv (fold advance gaps w)"
  by (induction gaps arbitrary: w) (simp_all add: engine_inv_advance)

lemma ticks_below_total:
  assumes "session a = Some s" and "interval s" and "isActive s" and "view a = Session"
    and "elapsed s + length gaps < TOTAL_TIME"
  shows "ticks gaps a = a\<lparr>session := Some (s\<lparr>elapsed := elapsed s + length gaps\<rparr>),
                          browser := fold advance gaps (browser a)\<rparr>"
  using assms
proof (induction gaps arbitrary: a s)
  case Nil
  then show ?case by (simp add: ticks_def)
next
  case (Cons g gaps)
  let ?a1 = "tick_after g a"
  let ?s1 = "s\<lparr>elapsed := elapsed s + 1\<rparr>"
  have a1: "?a1 = (pass g a)\<lparr>session := Some ?s1\<rparr>"
    unfolding tick_after_def using Cons.prems
    by (intro tick_below_total) (simp_all add: pass_fields)
  have "ticks gaps ?a1 = ?a1\<lparr>session := Some (?s1\<lparr>elapsed := elapsed ?s1 + length gaps\<rparr>),
                          browser := fold advance gaps (browser ?a1)\<rparr>"
    using Cons.prems by (intro Cons.IH) (simp_all add: a1 pass_fields)
  then show ?case by (simp add: ticks_def a1 pass_def)
qed

text \<open>
  Claim C1 fails on the code. A session is started, 300 seconds pass without the interval's
  callback being run, then it runs once: \<open>elapsed\<close> is 1, while the wall clock has advanced by
  300000 ms. The callback is \<^verbatim>\<open>setElapsed(e => e + 1)\<close>; it reads no clock.
\<close>

theorem single_tick_after_gap:
  "map_option elapsed (session (ticks [300000] (handleStart demo_App))) = Some 1
   \<and> now_ms (browser (ticks [300000] (handleStart demo_App)))
       = now_ms (browser (handleStart demo_App)) + 300000"
proof -
  have s: "session (handleStart demo_App)
           = Some \<lparr>elapsed = 0, isActive = True, isAudioOn = True, interval = True\<rparr>"
    and v: "view (handleStart demo_App) = Session"
    by (simp_all add: handleStart_session demo_App_def new_App_fields)
  have "ticks [300000] (handleStart demo_App) = (handleStart demo_App)
          \<lparr>session := Some (\<lparr>elapsed = 0, isActive = True, isAudioOn = True, interval = True\<rparr>
               \<lparr>elapsed := elapsed \<lparr>elapsed = 0, isActive = True, isAudioOn = True, interval = True\<rparr> + length [300000::nat]\<rparr>),
           browser := fold advance [300000] (browser (handleStart demo_App))\<rparr>"
    using s v by (intro ticks_below_total) (simp_all add: TOTAL_TIME_def)
  then show ?thesis by (simp add: advance_frame)
qed

text \<open>
  Claim C2 fails on the code. A session runs for 57 seconds and the user ends it, confirming
  the dialog. The view is Home and the audio cleanup has called \<^verbatim>\<open>stop\<close> (its timeout is
  queued), but the history and the stored history are as empty as before: no record is emitted.
\<close>

theorem exit_leaves_history_unchanged:
  "view (pass 57000 (handleStart demo_App)) = Session
   \<and> history (pass 57000 (handleStart demo_App)) = []
   \<and> history (handleSessionExit True (pass 57000 (handleStart demo_App))) = []
   \<and> localStorage (handleSessionExit True (pass 57000 (handleStart demo_App))) = Some []
   \<and> view (handleSessionExit True (pass 57000 (handleStart demo_App))) = Home
   \<and> timeouts (browser (handleSessionExit True (pass 57000 (handleStart demo_App)))) = [58000]"
proof -
  let ?a = "pass 57000 (handleStart demo_App)"
  have n: "session demo_App = None" by (simp add: demo_App_def new_App_fields)
  have s: "session ?a = Some \<lparr>elapsed = 0, isActive = True, isAudioOn = True, interval = True\<rparr>"
    and v: "view ?a = Session" and h: "history ?a = []" and l: "localStorage ?a = Some []"
    and b: "browser ?a = advance 57000 (start (init demo_Browser))"
    using n by (simp_all add: pass_fields handleStart_session demo_App_def new_App_fields load_history_def)
  have e: "handleSessionExit True ?a = ?a\<lparr>view := Home, session := None, browser := stop (browser ?a)\<rparr>"
    using s v by (rule handleSessionExit_confirmed)
  have t: "timeouts (stop (browser ?a)) = [58000]"
    unfolding b by (simp add: engine_defs del: upt_rec_numeral)
  show ?thesis unfolding e using v h l t by simp
qed

text \<open>
  Claim C3, as amended. \<^verbatim>\<open>handleSessionComplete\<close> appends the record to the history state and
  leaves the stored value as it was; the persistence effect of the render that follows stores the
  whole history, and an app started from the stored value then has the same history, the record
  last. A record has the fields \<open>id\<close>, \<open>date\<close>, \<open>duration\<close> and \<open>completed\<close>; there is no sync
  state.
\<close>

theorem record_persisted_by_effect:
  "history (handleSessionComplete d a)
     = history a @ [\<lparr>record_id = toString (now_ms (browser a)), date = now_ms (browser a),
                     duration = d, completed = True\<rparr>]
   \<and> localStorage (handleSessionComplete d a) = localStorage a
   \<and> localStorage (commit a (handleSessionComplete d a))
       = Some (history (handleSessionComplete d a))
   \<and> history (new_App (localStorage (commit a (handleSessionComplete d a))) b)
       = history (handleSessionComplete d a)"
  by (simp add: handleSessionComplete_def commit_def persist_history_def unmount_SessionView_def
      audio_cleanup_def timer_cleanup_def new_App_fields load_history_def Let_def)

text \<open>
  Claim C3 as stated fails: when \<^verbatim>\<open>handleSessionComplete\<close> has returned and the effect has
  not yet run, the stored history lacks the record, and an app started from it does not have the
  history with the record.
\<close>

theorem record_not_persisted_on_return_counterexample:
  "load_history (localStorage (handleSessionComplete 1200 demo_App)) = []
   \<and> map duration (history (handleSessionComplete 1200 demo_App)) = [1200]
   \<and> history (new_App (localStorage (handleSessionComplete 1200 demo_App)) demo_Browser)
       \<noteq> history (handleSessionComplete 1200 demo_App)"
  by (simp add: handleSessionComplete_def demo_App_def new_App_fields load_history_def Let_def)

text \<open>
  Claim C6, as amended. When the callback brings \<open>elapsed\<close> to \<open>TOTAL_TIME\<close>, one record is
  appended, with \<open>completed = True\<close> and \<open>duration = TOTAL_TIME\<close>, and stored; the view is Home;
  \<^verbatim>\<open>stop\<close> has been called twice, by \<^verbatim>\<open>handleComplete\<close> and by the cleanup of the audio
  effect when \<^verbatim>\<open>SessionView\<close> is unmounted; and a further callback changes nothing.
\<close>

theorem completion_at_total:
  assumes "session a = Some s" and "interval s" and "elapsed s + 1 = TOTAL_TIME"
  shows "history (interval_callback a)
           = history a @ [\<lparr>record_id = toString (now_ms (browser a)), date = now_ms (browser a),
                           duration = TOTAL_TIME, completed = True\<rparr>]
       \<and> localStorage (interval_callback a) = Some (history (interval_callback a))
       \<and> view (interval_callback a) = Home
       \<and> browser (interval_callback a) = stop (stop (browser a))
       \<and> interval_callback (interval_callback a) = interval_callback a"
  unfolding tick_at_total [OF assms] by (simp add: interval_callback_def)

lemma demo_before_completion:
  "session (pass 1000 (ticks (replicate 1199 1000) (handleStart demo_App)))
     = Some \<lparr>elapsed = 1199, isActive = True, isAudioOn = True, interval = True\<rparr>"
  "browser (pass 1000 (ticks (replicate 1199 1000) (handleStart demo_App)))
     = advance 1000 (fold advance (replicate 1199 1000) (start (init demo_Browser)))"
  "history (pass 1000 (ticks (replicate 1199 1000) (handleStart demo_App))) = []"
proof -
  have n: "session demo_App = None" by (simp add: demo_App_def new_App_fields)
  have s: "session (handleStart demo_App)
           = Some \<lparr>elapsed = 0, isActive = True, isAudioOn = True, interval = True\<rparr>"
    and v: "view (handleStart demo_App) = Session"
    and b: "browser (handleStart demo_App) = start (init demo_Browser)"
    and h: "history (handleStart demo_App) = []"
    using n by (simp_all add: handleStart_session demo_App_def new_App_fields load_history_def)
  have t: "ticks (replicate 1199 1000) (handleStart demo_App) = (handleStart demo_App)
          \<lparr>session := Some (\<lparr>elapsed = 0, isActive = True, isAudioOn = True, interval = True\<rparr>
               \<lparr>elapsed := elapsed \<lparr>elapsed = 0, isActive = True, isAudioOn = True, interval = True\<rparr>
                    + length (replicate 1199 (1000::nat))\<rparr>),
           browser := fold advance (replicate 1199 1000) (browser (handleStart demo_App))\<rparr>"
    using s v by (intro ticks_below_total) (simp_all add: TOTAL_TIME_def)
  show "session (pass 1000 (ticks (replicate 1199 1000) (handleStart demo_App)))
     = Some \<lparr>elapsed = 1199, isActive = True, isAudioOn = True, interval = True\<rparr>"
    unfolding t by (simp add: pass_fields)
  show "browser (pass 1000 (ticks (replicate 1199 1000) (handleStart demo_App)))
     = advance 1000 (fold advance (replicate 1199 1000) (start (init demo_Browser)))"
    unfolding t by (simp add: pass_fields b)
  show "history (pass 1000 (ticks (replicate 1199 1000) (handleStart demo_App))) = []"
    unfolding t by (simp add: pass_fields h)
qed

lemma demo_browser_before_completion:
  "engine_inv (advance 1000 (fold advance (replicate 1199 1000) (start (init demo_Browser))))"
  "isPlaying (audioEngine (advance 1000 (fold advance (replicate 1199 1000) (start (init demo_Browser)))))"
  "timeouts (advance 1000 (fold advance (replicate 1199 1000) (start (init demo_Browser)))) = []"
  "now_ms (advance 1000 (fold advance (replicate 1199 1000) (start (init demo_Browser)))) = 1200000"
proof -
  have "engine_inv (run [Init, Start] demo_Browser)"
    unfolding demo_Browser_def by (rule engine_inv_reachable)
  then have "engine_inv (start (init demo_Browser))" by (simp add: run_def)
  then show "engine_inv (advance 1000 (fold advance (replicate 1199 1000) (start (init demo_Browser))))"
    by (intro engine_inv_advance engine_inv_fold_advance)
  have p: "isPlaying (audioEngine (start (init demo_Browser)))"
    and t: "timeouts (start (init demo_Browser)) = []"
    and n: "now_ms (start (init demo_Browser)) = 0"
    by (simp_all add: engine_defs del: upt_rec_numeral)
  show "isPlaying (audioEngine (advance 1000 (fold advance (replicate 1199 1000) (start (init demo_Browser)))))"
    by (simp add: advance_frame fold_advance_frame p del: fold_replicate)
  show "timeouts (advance 1000 (fold advance (replicate 1199 1000) (start (init demo_Browser)))) = []"
    by (simp add: advance_frame fold_advance_frame t del: fold_replicate)
  show "now_ms (advance 1000 (fold advance (replicate 1199 1000) (start (init demo_Browser)))) = 1200000"
    by (simp add: advance_frame fold_advance_frame n sum_list_replicate del: fold_replicate)
qed

theorem completion_at_total_witness:
  "session (pass 1000 (ticks (replicate 1199 1000) (handleStart demo_App)))
     = Some \<lparr>elapsed = 1199, isActive = True, isAudioOn = True, interval = True\<rparr>
   \<and> interval \<lparr>elapsed = 1199, isActive = True, isAudioOn = True, interval = True\<rparr>
   \<and> elapsed \<lparr>elapsed = 1199, isActive = True, isAudioOn = True, interval = True\<rparr> + 1 = TOTAL_TIME
   \<and> map duration (history (tick_after 1000 (ticks (replicate 1199 1000) (handleStart demo_App)))) = [1200]
   \<and> map completed (history (tick_after 1000 (ticks (replicate 1199 1000) (handleStart demo_App)))) = [True]
   \<and> view (tick_after 1000 (ticks (replicate 1199 1000) (handleStart demo_App))) = Home
   \<and> timeouts (browser (tick_after 1000 (ticks (replicate 1199 1000) (handleStart demo_App))))
       = [1201000, 1201000]"
proof -
  let ?a = "pass 1000 (ticks (replicate 1199 1000) (handleStart demo_App))"
  let ?s = "\<lparr>elapsed = 1199, isActive = True, isAudioOn = True, interval = True\<rparr>"
  have s: "session ?a = Some ?s" by (rule demo_before_completion)
  have i: "interval ?s" and e: "elapsed ?s + 1 = TOTAL_TIME" by (simp_all add: TOTAL_TIME_def)
  have t: "timeouts (stop (stop (browser ?a))) = [1201000, 1201000]"
    unfolding demo_before_completion
    using timeouts_stop_stop [OF demo_browser_before_completion(1,2)]
    by (simp add: demo_browser_before_completion del: fold_replicate)
  from completion_at_total [OF s i e] s i e t show ?thesis
    unfolding tick_after_def by (simp add: demo_before_completion TOTAL_TIME_def)
qed

text \<open>
  Claim C6 as stated fails: after a session of 1200 callbacks one second apart, the engine is
  not in the state one call of \<^verbatim>\<open>stop\<close> leaves it in; two fade-out timeouts are queued.
\<close>

theorem stop_invoked_twice_counterexample:
  "timeouts (browser (tick_after 1000 (ticks (replicate 1199 1000) (handleStart demo_App))))
     = [1201000, 1201000]
   \<and> timeouts (stop (browser (pass 1000 (ticks (replicate 1199 1000) (handleStart demo_App)))))
     = [1201000]
   \<and> browser (tick_after 1000 (ticks (replicate 1199 1000) (handleStart demo_App)))
     \<noteq> stop (browser (pass 1000 (ticks (replicate 1199 1000) (handleStart demo_App))))"
proof -
  let ?a = "pass 1000 (ticks (replicate 1199 1000) (handleStart demo_App))"
  let ?s = "\<lparr>elapsed = 1199, isActive = True, isAudioOn = True, interval = True\<rparr>"
  have s: "session ?a = Some ?s" by (rule demo_before_completion)
  have i: "interval ?s" and e: "elapsed ?s + 1 = TOTAL_TIME" by (simp_all add: TOTAL_TIME_def)
  have b: "browser (interval_callback ?a) = stop (stop (browser ?a))"
    unfolding tick_at_total [OF s i e] by simp
  have t2: "timeouts (stop (stop (browser ?a))) = [1201000, 1201000]"
    unfolding demo_before_completion
    using timeouts_stop_stop [OF demo_browser_before_completion(1,2)]
    by (simp add: demo_browser_before_completion del: fold_replicate)
  have t1: "timeouts (stop (browser ?a)) = [1201000]"
    unfolding demo_before_completion
    using timeouts_stop [OF demo_browser_before_completion(1,2)]
    by (simp add: demo_browser_before_completion del: fold_replicate)
  have "timeouts (stop (stop (browser ?a))) \<noteq> timeouts (stop (browser ?a))"
    unfolding t1 t2 by simp
  then have ne: "stop (stop (browser ?a)) \<noteq> stop (browser ?a)" by auto
  show ?thesis unfolding tick_after_def b using t1 t2 ne by simp
qed

end
